theory Spec2Isabelle
  imports Main
begin

section \<open>The error log (class \<open>error_log\<close> of ttest.h)\<close>

text \<open>
  An \<open>error_log\<close> object holds its qualifying name and the vector of messages. The two
  mutexes only serialise concurrent callers; a single-threaded run never observes them,
  so they have no field here. The C++ members \<open>qualifying_name_\<close> and \<open>log_\<close> lose their
  trailing underscore.
\<close>

record error_log =
  qualifying_name :: string
  log :: "string list"

text \<open>The constructor \<open>error_log(name)\<close>: the given name and an empty vector.\<close>

definition new_error_log :: "string \<Rightarrow> error_log" where
  "new_error_log name = \<lparr>qualifying_name = name, log = []\<rparr>"

text \<open>\<open>size()\<close> returns \<open>log_.size()\<close>.\<close>

definition size_log :: "error_log \<Rightarrow> nat" where
  "size_log l = length (log l)"

text \<open>
  \<open>append(msg)\<close>: an empty message pushes the qualifying name alone, any other message
  pushes the name, the separator and the message.
\<close>

definition append_msg :: "error_log \<Rightarrow> string \<Rightarrow> error_log" where
  "append_msg l msg =
     (if msg = [] then l\<lparr>log := log l @ [qualifying_name l]\<rparr>
      else l\<lparr>log := log l @ [qualifying_name l @ ''::'' @ msg]\<rparr>)"

text \<open>\<open>append()\<close> is \<open>append({})\<close>, the call with the empty string.\<close>

definition append_default :: "error_log \<Rightarrow> error_log" where
  "append_default l = append_msg l []"

text \<open>\<open>append_if(msg, fail)\<close> and \<open>append_if(fail)\<close> append only when \<open>fail\<close> holds.\<close>

definition append_if :: "error_log \<Rightarrow> string \<Rightarrow> bool \<Rightarrow> error_log" where
  "append_if l msg fail = (if fail then append_msg l msg else l)"

definition append_if_default :: "error_log \<Rightarrow> bool \<Rightarrow> error_log" where
  "append_if_default l fail = (if fail then append_default l else l)"

text \<open>
  \<open>incorporate(sublog)\<close> walks the messages of the sublog front to back and calls
  \<open>append\<close> on each. The sublog is a const reference to another object: the result is
  the new state of the receiving log only.
\<close>

definition incorporate :: "error_log \<Rightarrow> error_log \<Rightarrow> error_log" where
  "incorporate l sublog = foldl append_msg l (log sublog)"

text \<open>\<open>report(os)\<close> writes every message followed by a newline; the stream is a string.\<close>

definition report :: "error_log \<Rightarrow> string \<Rightarrow> string" where
  "report l os = foldl (\<lambda>out msg. out @ msg @ [CHR 0x0A]) os (log l)"

section \<open>Test suites (classes \<open>test_suite\<close>, \<open>simple_test\<close>, \<open>compound_test\<close>)\<close>

text \<open>
  A test procedure is a \<open>std::function<void(error_log&)>\<close>. It receives the log of its
  own node and either returns or throws; in both cases the log is left as the procedure
  mutated it. A procedure is taken to act on the log it is handed and on nothing else,
  and to come back (a procedure that hangs has no value here).
\<close>

datatype fault = Fault string

datatype outcome = Returned | Threw fault

type_synonym test_type = "error_log \<Rightarrow> outcome \<times> error_log"

text \<open>
  Nodes are reached through \<open>shared_ptr\<close> handles, so one object may sit in several
  component vectors. An object is therefore named by an identity. Its immutable members
  (the procedure \<open>test_\<close>, the vector \<open>components\<close>) travel with the handle; its one
  mutable member, the log \<open>errors_\<close>, lives in a store indexed by identity. Two handles
  with the same identity share one log.
\<close>

type_synonym ident = nat

datatype test_suite =
  simple_test ident test_type
| compound_test ident "test_suite list"

type_synonym store = "ident \<Rightarrow> error_log"

fun ident_of :: "test_suite \<Rightarrow> ident" where
  "ident_of (simple_test i f) = i"
| "ident_of (compound_test i ts) = i"

text \<open>
  \<open>run_test()\<close> forwards to the virtual \<open>do_test()\<close>. A simple test calls its procedure on
  its own log. A compound test calls \<open>collect_errors(components)\<close>, whose \<open>for_each\<close> runs
  each subtest and then incorporates the subtest's log into \<open>this->errors_\<close>. Nothing
  catches: a throw leaves the loop and every caller at once, with the store as it stood.
\<close>

fun run_test :: "test_suite \<Rightarrow> store \<Rightarrow> outcome \<times> store"
  and do_test :: "test_suite \<Rightarrow> store \<Rightarrow> outcome \<times> store"
  and collect_errors :: "ident \<Rightarrow> test_suite list \<Rightarrow> store \<Rightarrow> outcome \<times> store"
where
  "run_test t s = do_test t s"
| "do_test (simple_test i f) s = (case f (s i) of (r, l) \<Rightarrow> (r, s(i := l)))"
| "do_test (compound_test i ts) s = collect_errors i ts s"
| "collect_errors this [] s = (Returned, s)"
| "collect_errors this (t # ts) s =
     (case run_test t s of
        (Threw e, s') \<Rightarrow> (Threw e, s')
      | (Returned, s') \<Rightarrow>
          collect_errors this ts (s'(this := incorporate (s' this) (s' (ident_of t)))))"

text \<open>\<open>error_count()\<close> and \<open>report(os)\<close> of a node read the node's own log.\<close>

definition error_count :: "test_suite \<Rightarrow> store \<Rightarrow> nat" where
  "error_count t s = size_log (s (ident_of t))"

definition report_test :: "test_suite \<Rightarrow> store \<Rightarrow> string \<Rightarrow> string" where
  "report_test t s os = report (s (ident_of t)) os"

section \<open>Notions used to state the properties\<close>

text \<open>
  The identities of all objects reachable from a handle, the handle's own first, and the
  identities of the simple tests below it, both in declaration order. A handle whose
  \<open>idents\<close> are distinct reaches no object twice: it is a tree.
\<close>

fun idents :: "test_suite \<Rightarrow> ident list" where
  "idents (simple_test i f) = [i]"
| "idents (compound_test i ts) = i # concat (map idents ts)"

fun leaves :: "test_suite \<Rightarrow> ident list" where
  "leaves (simple_test i f) = [i]"
| "leaves (compound_test i ts) = concat (map leaves ts)"

text \<open>
  A group's run as the specification words it: each child's \<open>run()\<close> is executed in
  declared order and, after each child completes, that child's log is incorporated into
  the group's own. \<open>run_and_incorporate\<close> is that step for one child, written with
  \<open>run_test\<close> and \<open>incorporate\<close> alone; \<open>store_before this ts s k\<close> is the store that the
  steps for the first \<open>k\<close> children leave, the one in which child \<open>k\<close> is run.
\<close>

definition run_and_incorporate :: "ident \<Rightarrow> store \<Rightarrow> test_suite \<Rightarrow> store" where
  "run_and_incorporate this s t =
     (let s' = snd (run_test t s) in s'(this := incorporate (s' this) (s' (ident_of t))))"

definition store_before :: "ident \<Rightarrow> test_suite list \<Rightarrow> store \<Rightarrow> nat \<Rightarrow> store" where
  "store_before this ts s k = foldl (run_and_incorporate this) s (take k ts)"

text \<open>A list of objects is fresh in a store when each of their logs is still empty.\<close>

definition fresh :: "store \<Rightarrow> ident list \<Rightarrow> bool" where
  "fresh s is = list_all (\<lambda>i. log (s i) = []) is"

text \<open>
  The mutating calls a caller can make on one log, with their arguments. The private
  vector can change through these calls only, so the logs a program can hold are the
  ones a list of such calls builds from a newly constructed log.
\<close>

datatype log_op =
  Append string
| AppendDefault
| AppendIf string bool
| AppendIfDefault bool
| Incorporate error_log

fun apply_op :: "error_log \<Rightarrow> log_op \<Rightarrow> error_log" where
  "apply_op l (Append msg) = append_msg l msg"
| "apply_op l AppendDefault = append_default l"
| "apply_op l (AppendIf msg fail) = append_if l msg fail"
| "apply_op l (AppendIfDefault fail) = append_if_default l fail"
| "apply_op l (Incorporate sublog) = incorporate l sublog"

section \<open>Concrete logs and trees\<close>

text \<open>Two logs as a small store, and a log with the empty name after one \<open>append()\<close>.\<close>

definition root_log :: error_log where
  "root_log = new_error_log ''root''"

definition anonymous_failure :: error_log where
  "anonymous_failure = append_default (new_error_log [])"

definition two_logs :: store where
  "two_logs = (\<lambda>_. new_error_log [])
     (0 := new_error_log ''root'',
      1 := append_msg (append_default (new_error_log ''leaf'')) ''x'')"

text \<open>
  The procedure of the leaves of \<open>hierarchy_test\<close> in framework_test.cpp,
  \<open>[](error_log& l){l.append();}\<close>, then one that appends and throws, and one that
  looks at the log first, \<open>[](error_log& l){l.append_if(l.size() == 0);}\<close>.
\<close>

definition fail_always :: test_type where
  "fail_always l = (Returned, append_default l)"

definition throw_after_append :: test_type where
  "throw_after_append l = (Threw (Fault ''boom''), append_msg l ''partial'')"

definition fail_first_only :: test_type where
  "fail_first_only l = (Returned, append_if_default l (size_log l = 0))"

text \<open>
  The tree of \<open>hierarchy_test\<close>: \<open>compound\<close> holds leaf \<open>A\<close> and the group \<open>sub\<close> of the
  leaves \<open>B\<close> and \<open>C\<close>. The objects are numbered 0 to 4 and the store gives each its
  newly constructed log. \<open>faulty_hierarchy\<close> is the same tree with a throwing \<open>B\<close>, and
  \<open>single_group\<close> is \<open>compound\<close> with leaf \<open>A\<close> alone.
\<close>

definition hierarchy :: test_suite where
  "hierarchy = compound_test 0
     [simple_test 1 fail_always,
      compound_test 2 [simple_test 3 fail_always, simple_test 4 fail_always]]"

definition hierarchy_store :: store where
  "hierarchy_store = (\<lambda>_. new_error_log [])
     (0 := new_error_log ''compound'', 1 := new_error_log ''A'', 2 := new_error_log ''sub'',
      3 := new_error_log ''B'', 4 := new_error_log ''C'')"

definition single_group :: test_suite where
  "single_group = compound_test 0 [simple_test 1 fail_always]"

definition faulty_hierarchy :: test_suite where
  "faulty_hierarchy = compound_test 0
     [simple_test 1 fail_always,
      compound_test 2 [simple_test 3 throw_after_append, simple_test 4 fail_always]]"



text \<open>The calls of \<open>logging_test\<close> on its log named \<open>test\<close>.\<close>

definition logging_ops :: "log_op list" where
  "logging_ops = [Append ''1'', AppendIf ''2'' False, AppendIf ''3'' True, AppendDefault]"

lemmas example_defs =
  hierarchy_def hierarchy_store_def single_group_def faulty_hierarchy_def logging_ops_def
  fail_always_def throw_after_append_def new_error_log_def append_default_def append_msg_def
  append_if_def append_if_default_def incorporate_def size_log_def error_count_def fresh_def

section \<open>Properties of the error log\<close>

lemma foldl_append_msg:
  "foldl append_msg l ms =
     l\<lparr>log := log l @ map (\<lambda>m. if m = [] then qualifying_name l
                                else qualifying_name l @ ''::'' @ m) ms\<rparr>"
  by (induction ms arbitrary: l) (simp_all add: append_msg_def)

lemma log_incorporate:
  "log (incorporate l sub) =
     log l @ map (\<lambda>m. if m = [] then qualifying_name l
                        else qualifying_name l @ ''::'' @ m) (log sub)"
  by (simp add: incorporate_def foldl_append_msg)

lemma qualifying_name_incorporate:
  "qualifying_name (incorporate l sub) = qualifying_name l"
  by (simp add: incorporate_def foldl_append_msg)

lemma size_log_incorporate:
  "size_log (incorporate l sub) = size_log l + size_log sub"
  by (simp add: size_log_def log_incorporate)

text \<open>
  C2. \<open>append(detail)\<close> pushes exactly the qualifying name when the detail is empty (and
  so does \<open>append()\<close>), and exactly name, \<open>::\<close> and detail otherwise. It has no failing
  branch, keeps the name and makes the log one message longer.
\<close>

theorem append_records_qualified_message:
  "log (append_msg l detail) =
     log l @ [if detail = [] then qualifying_name l
              else qualifying_name l @ ''::'' @ detail]
   \<and> log (append_default l) = log l @ [qualifying_name l]
   \<and> qualifying_name (append_msg l detail) = qualifying_name l
   \<and> size_log (append_msg l detail) = size_log l + 1"
  by (simp add: append_msg_def append_default_def size_log_def)

text \<open>
  C1, as stated, fails where the absorbed log holds an empty message (a log with the
  empty name after \<open>append()\<close>): \<open>append\<close> then pushes the receiver's name alone, without
  the separator.
\<close>

theorem incorporate_empty_message_counterexample:
  "log anonymous_failure = [[]]
   \<and> log (incorporate root_log anonymous_failure) = [''root'']
   \<and> log (incorporate root_log anonymous_failure)
       \<noteq> [qualifying_name root_log @ ''::'' @ hd (log anonymous_failure)]"
  by (simp add: anonymous_failure_def root_log_def incorporate_def append_default_def
      append_msg_def new_error_log_def)

text \<open>
  C1, amended. For two distinct log objects, \<open>incorporate(other)\<close> appends to the
  receiver one message per message of \<open>other\<close>, in \<open>other\<close>'s order: the receiver's name,
  \<open>::\<close> and the original message when that message is not empty, the receiver's name
  alone when it is. The receiver grows by \<open>other.size()\<close> and \<open>other\<close> is unchanged.
\<close>

theorem incorporate_appends_requalified:
  assumes "this \<noteq> other"
  shows "log ((s(this := incorporate (s this) (s other))) this) =
           log (s this) @ map (\<lambda>m. if m = [] then qualifying_name (s this)
                                    else qualifying_name (s this) @ ''::'' @ m) (log (s other))
         \<and> size_log ((s(this := incorporate (s this) (s other))) this) =
             size_log (s this) + size_log (s other)
         \<and> (s(this := incorporate (s this) (s other))) other = s other"
  using assms by (simp add: log_incorporate size_log_incorporate)

theorem incorporate_appends_requalified_witness:
  "(0::nat) \<noteq> 1
   \<and> log ((two_logs(0 := incorporate (two_logs 0) (two_logs 1))) 0) =
        [''root::leaf'', ''root::leaf::x'']
   \<and> (two_logs(0 := incorporate (two_logs 0) (two_logs 1))) 1 = two_logs 1"
  using incorporate_appends_requalified [of 0 1 two_logs]
  by (simp add: two_logs_def new_error_log_def append_default_def append_msg_def)

text \<open>
  C7, as stated, fails for the empty message: \<open>append_if("", true)\<close> records the name
  alone, not the name followed by the separator.
\<close>

theorem append_if_empty_message_counterexample:
  "log (append_if (new_error_log ''test'') [] True) = [''test'']
   \<and> log (append_if (new_error_log ''test'') [] True)
        \<noteq> log (new_error_log ''test'') @ [''test'' @ ''::'' @ []]"
  by (simp add: append_if_def append_msg_def new_error_log_def)

text \<open>
  C7, amended. \<open>append_if(msg, false)\<close> leaves the log as it was. \<open>append_if(msg, true)\<close>
  adds exactly one message: name, \<open>::\<close> and \<open>msg\<close> for a non-empty \<open>msg\<close>, the name alone
  for the empty one.
\<close>

theorem append_if_effect:
  "append_if l msg False = l
   \<and> log (append_if l msg True) =
       log l @ [if msg = [] then qualifying_name l else qualifying_name l @ ''::'' @ msg]
   \<and> qualifying_name (append_if l msg True) = qualifying_name l
   \<and> size_log (append_if l msg True) = size_log l + 1"
  by (simp add: append_if_def append_msg_def size_log_def)

lemma apply_op_name: "qualifying_name (apply_op l op) = qualifying_name l"
  by (cases op)
    (simp_all add: append_msg_def append_default_def append_if_def append_if_default_def
      qualifying_name_incorporate)

lemma apply_op_log:
  "\<exists>ms. log (apply_op l op) = log l @ ms
     \<and> (\<forall>m\<in>set ms. m = qualifying_name l
           \<or> (\<exists>detail. detail \<noteq> [] \<and> m = qualifying_name l @ ''::'' @ detail))"
  by (cases op)
    (auto simp add: append_msg_def append_default_def append_if_def append_if_default_def
      log_incorporate)

text \<open>
  C6. Every message of a log is the log's qualifying name, or that name followed by \<open>::\<close>
  and a non-empty detail: any list of \<open>append\<close>, \<open>append_if\<close> and \<open>incorporate\<close> calls
  keeps a log that way, and so every log built by such calls from a newly constructed
  one is that way.
\<close>

theorem stored_messages_are_qualified:
  "((\<forall>m\<in>set (log l). m = qualifying_name l
         \<or> (\<exists>detail. detail \<noteq> [] \<and> m = qualifying_name l @ ''::'' @ detail))
     \<longrightarrow> (\<forall>m\<in>set (log (foldl apply_op l ops)). m = qualifying_name l
         \<or> (\<exists>detail. detail \<noteq> [] \<and> m = qualifying_name l @ ''::'' @ detail)))
   \<and> (\<forall>m\<in>set (log (foldl apply_op (new_error_log name) ops)). m = name
         \<or> (\<exists>detail. detail \<noteq> [] \<and> m = name @ ''::'' @ detail))"
proof -
  have step: "qualifying_name (foldl apply_op l ops) = qualifying_name l
        \<and> ((\<forall>m\<in>set (log l). m = qualifying_name l
                \<or> (\<exists>detail. detail \<noteq> [] \<and> m = qualifying_name l @ ''::'' @ detail))
           \<longrightarrow> (\<forall>m\<in>set (log (foldl apply_op l ops)). m = qualifying_name l
                \<or> (\<exists>detail. detail \<noteq> [] \<and> m = qualifying_name l @ ''::'' @ detail)))" for l
  proof (induction ops arbitrary: l)
    case Nil
    then show ?case by simp
  next
    case (Cons op ops)
    obtain ms where ms: "log (apply_op l op) = log l @ ms"
      "\<forall>m\<in>set ms. m = qualifying_name l
           \<or> (\<exists>detail. detail \<noteq> [] \<and> m = qualifying_name l @ ''::'' @ detail)"
      using apply_op_log [of l op] by blast
    show ?case
      using Cons.IH [of "apply_op l op"] ms by (auto simp add: apply_op_name)
  qed
  have new: "\<forall>m\<in>set (log (foldl apply_op (new_error_log name) ops)). m = name
         \<or> (\<exists>detail. detail \<noteq> [] \<and> m = name @ ''::'' @ detail)"
    using step [of "new_error_log name"] by (simp add: new_error_log_def)
  show ?thesis using step [of l] new by blast
qed

theorem stored_messages_are_qualified_witness:
  "log (foldl apply_op (new_error_log ''test'') logging_ops) = [''test::1'', ''test::3'', ''test'']
   \<and> (\<exists>detail. detail \<noteq> [] \<and> ''test::1'' = ''test'' @ ''::'' @ detail)
   \<and> (\<exists>detail. detail \<noteq> [] \<and> ''test::3'' = ''test'' @ ''::'' @ detail)
   \<and> log (foldl apply_op (append_msg (new_error_log ''test'') ''0'') logging_ops)
       = [''test::0'', ''test::1'', ''test::3'', ''test'']"
  using stored_messages_are_qualified
    [of "append_msg (new_error_log ''test'') ''0''" logging_ops "''test''"]
  by (simp add: example_defs)

section \<open>Properties of running a test tree\<close>

subsection \<open>What a run leaves untouched\<close>

lemma ident_of_in_idents: "ident_of t \<in> set (idents t)"
  by (cases t) simp_all

lemma leaves_subset_idents: "set (leaves t) \<subseteq> set (idents t)"
  by (induction t) auto

text \<open>
  A run writes to the logs of the objects below the handle it is called on, and to no
  other: first for a component list whose members behave so, then for every handle.
\<close>

lemma collect_errors_frame_aux:
  assumes "\<forall>t\<in>set ts. \<forall>s r s'. run_test t s = (r, s') \<longrightarrow> j \<notin> set (idents t) \<longrightarrow> s' j = s j"
    and "collect_errors this ts s = (r, s')"
    and "j \<noteq> this"
    and "j \<notin> set (concat (map idents ts))"
  shows "s' j = s j"
  using assms
proof (induction ts arbitrary: s)
  case Nil
  then show ?case by simp
next
  case (Cons t ts)
  obtain r1 s1 where run: "run_test t s = (r1, s1)" by (cases "run_test t s")
  have j_t: "j \<notin> set (idents t)" and j_ts: "j \<notin> set (concat (map idents ts))"
    using Cons.prems(4) by auto
  have s1j: "s1 j = s j"
    using Cons.prems(1) run j_t by simp
  show ?case
  proof (cases r1)
    case Returned
    define s2 where "s2 = s1(this := incorporate (s1 this) (s1 (ident_of t)))"
    have ce: "collect_errors this ts s2 = (r, s')"
      using Cons.prems(2) run Returned by (simp add: s2_def)
    have IH': "\<forall>t\<in>set ts. \<forall>s r s'. run_test t s = (r, s') \<longrightarrow> j \<notin> set (idents t) \<longrightarrow> s' j = s j"
      using Cons.prems(1) by simp
    have "s' j = s2 j"
      using Cons.IH [OF IH' ce Cons.prems(3) j_ts] .
    also have "s2 j = s1 j"
      using Cons.prems(3) by (simp add: s2_def)
    finally show ?thesis using s1j by simp
  next
    case (Threw e)
    then have "s' = s1" using Cons.prems(2) run by simp
    then show ?thesis using s1j by simp
  qed
qed

lemma run_test_frame:
  "run_test t s = (r, s') \<Longrightarrow> j \<notin> set (idents t) \<Longrightarrow> s' j = s j"
proof (induction t arbitrary: s r s')
  case (simple_test i f)
  then show ?case by (auto split: prod.splits)
next
  case (compound_test i ts)
  have ce: "collect_errors i ts s = (r, s')" using compound_test.prems(1) by simp
  have ji: "j \<noteq> i" and jts: "j \<notin> set (concat (map idents ts))"
    using compound_test.prems(2) by auto
  have "\<forall>t\<in>set ts. \<forall>s r s'. run_test t s = (r, s') \<longrightarrow> j \<notin> set (idents t) \<longrightarrow> s' j = s j"
    using compound_test.IH by blast
  then show ?case
    using collect_errors_frame_aux [OF _ ce ji jts] by blast
qed

lemma collect_errors_frame:
  assumes "collect_errors this ts s = (r, s')"
    and "j \<noteq> this"
    and "j \<notin> set (concat (map idents ts))"
  shows "s' j = s j"
proof -
  have "\<forall>t\<in>set ts. \<forall>s r s'. run_test t s = (r, s') \<longrightarrow> j \<notin> set (idents t) \<longrightarrow> s' j = s j"
    using run_test_frame by blast
  then show ?thesis
    using collect_errors_frame_aux [OF _ assms] by blast
qed

lemma collect_errors_name:
  assumes "collect_errors this ts s = (r, s')"
    and "this \<notin> set (concat (map idents ts))"
  shows "qualifying_name (s' this) = qualifying_name (s this)"
  using assms
proof (induction ts arbitrary: s)
  case Nil
  then show ?case by simp
next
  case (Cons t ts)
  obtain r1 s1 where run: "run_test t s = (r1, s1)" by (cases "run_test t s")
  have this_t: "this \<notin> set (idents t)" and this_ts: "this \<notin> set (concat (map idents ts))"
    using Cons.prems(2) by auto
  have s1this: "s1 this = s this"
    using run_test_frame [OF run this_t] .
  show ?case
  proof (cases r1)
    case Returned
    define s2 where "s2 = s1(this := incorporate (s1 this) (s1 (ident_of t)))"
    have ce: "collect_errors this ts s2 = (r, s')"
      using Cons.prems(1) run Returned by (simp add: s2_def)
    have "qualifying_name (s' this) = qualifying_name (s2 this)"
      using Cons.IH [OF ce this_ts] .
    also have "\<dots> = qualifying_name (s1 this)"
      by (simp add: s2_def qualifying_name_incorporate)
    finally show ?thesis using s1this by simp
  next
    case (Threw e)
    then have "s' = s1" using Cons.prems(1) run by simp
    then show ?thesis using s1this by simp
  qed
qed

subsection \<open>The loop of \<open>collect_errors\<close>\<close>

text \<open>
  Running a list of subtests is running a first part and, if that returned, the rest
  from the store it left; a throw in the first part ends the loop.
\<close>

lemma collect_errors_append:
  "collect_errors this (xs @ ys) s =
     (case collect_errors this xs s of
        (Threw e, s') \<Rightarrow> (Threw e, s')
      | (Returned, s') \<Rightarrow> collect_errors this ys s')"
  by (induction xs arbitrary: s) (auto split: prod.splits outcome.splits)

lemma collect_errors_snoc_Returned:
  assumes "collect_errors this (ts @ [t]) s = (Returned, s')"
  obtains s1 s2 where "collect_errors this ts s = (Returned, s1)"
    and "run_test t s1 = (Returned, s2)"
    and "s' = s2(this := incorporate (s2 this) (s2 (ident_of t)))"
proof -
  obtain r1 s1 where c1: "collect_errors this ts s = (r1, s1)"
    by (cases "collect_errors this ts s")
  obtain r2 s2 where c2: "run_test t s1 = (r2, s2)"
    by (cases "run_test t s1")
  have r1: "r1 = Returned"
    using assms c1 by (cases r1) (simp_all add: collect_errors_append)
  have r2: "r2 = Returned"
    using assms c1 c2 r1 by (cases r2) (simp_all add: collect_errors_append)
  have "s' = s2(this := incorporate (s2 this) (s2 (ident_of t)))"
    using assms c1 c2 r1 r2 by (simp add: collect_errors_append)
  then show ?thesis using that c1 c2 r1 r2 by blast
qed

lemma collect_errors_blocks:
  assumes "collect_errors this ts s = (Returned, s')"
    and "this \<notin> set (concat (map idents ts))"
  shows "log (s' this) =
           log (s this) @
           concat (map (\<lambda>k. map (\<lambda>m. if m = [] then qualifying_name (s this)
                                       else qualifying_name (s this) @ ''::'' @ m)
                                (log (snd (collect_errors this (take (Suc k) ts) s)
                                       (ident_of (ts ! k)))))
                       [0..<length ts])"
proof -
  define q where "q = (\<lambda>m. if m = [] then qualifying_name (s this)
                            else qualifying_name (s this) @ ''::'' @ m)"
  define B where "B = (\<lambda>us k. map q (log (snd (collect_errors this (take (Suc k) us) s)
                                          (ident_of (us ! k)))))"
  have "log (s' this) = log (s this) @ concat (map (B ts) [0..<length ts])"
    using assms
  proof (induction ts arbitrary: s' rule: rev_induct)
    case Nil
    then show ?case by simp
  next
    case (snoc t ts)
    obtain s1 s2 where c1: "collect_errors this ts s = (Returned, s1)"
      and c2: "run_test t s1 = (Returned, s2)"
      and s': "s' = s2(this := incorporate (s2 this) (s2 (ident_of t)))"
      using collect_errors_snoc_Returned [OF snoc.prems(1)] by blast
    have this_t: "this \<notin> set (idents t)" and this_ts: "this \<notin> set (concat (map idents ts))"
      using snoc.prems(2) by auto
    have neq: "ident_of t \<noteq> this"
      using this_t ident_of_in_idents [of t] by auto
    have s2this: "s2 this = s1 this"
      using run_test_frame [OF c2 this_t] .
    have name: "qualifying_name (s1 this) = qualifying_name (s this)"
      using collect_errors_name [OF c1 this_ts] .
    have IH: "log (s1 this) = log (s this) @ concat (map (B ts) [0..<length ts])"
      using snoc.IH [OF c1 this_ts] .
    have "snd (collect_errors this (ts @ [t]) s) (ident_of t) = s2 (ident_of t)"
      using snoc.prems(1) s' neq by simp
    then have last: "B (ts @ [t]) (length ts) = map q (log (s2 (ident_of t)))"
      by (simp add: B_def)
    have old: "map (B (ts @ [t])) [0..<length ts] = map (B ts) [0..<length ts]"
      by (rule map_cong) (simp_all add: B_def nth_append)
    have "log (s' this) = log (s1 this) @ map q (log (s2 (ident_of t)))"
      using s' s2this name by (simp add: log_incorporate q_def)
    also have "\<dots> = log (s this) @ concat (map (B ts) [0..<length ts])
                     @ B (ts @ [t]) (length ts)"
      using IH last by simp
    also have "\<dots> = log (s this) @ concat (map (B (ts @ [t])) [0..<length (ts @ [t])])"
      by (simp add: old)
    finally show ?case .
  qed
  then show ?thesis by (simp add: B_def q_def)
qed

lemma collect_errors_extends:
  assumes "collect_errors this ts s = (Returned, s')"
    and "this \<notin> set (concat (map idents ts))"
  shows "take (length (log (s this))) (log (s' this)) = log (s this)"
  using collect_errors_blocks [OF assms] by simp

text \<open>
  In a tree no later subtest writes to the log of an earlier one, so the log a subtest
  has when it is incorporated is the log it has when the run is over.
\<close>

lemma collect_errors_child_final:
  assumes "collect_errors this ts s = (Returned, s')"
    and "this \<notin> set (concat (map idents ts))"
    and "distinct (concat (map idents ts))"
    and "k < length ts"
  shows "snd (collect_errors this (take (Suc k) ts) s) (ident_of (ts ! k)) = s' (ident_of (ts ! k))"
proof -
  define xs where "xs = take (Suc k) ts"
  define ys where "ys = drop (Suc k) ts"
  have ts: "ts = xs @ ys" by (simp add: xs_def ys_def)
  obtain r1 s1 where c1: "collect_errors this xs s = (r1, s1)"
    by (cases "collect_errors this xs s")
  have r1: "r1 = Returned"
    using assms(1) c1 unfolding ts by (cases r1) (simp_all add: collect_errors_append)
  have c2: "collect_errors this ys s1 = (Returned, s')"
    using assms(1) c1 r1 unfolding ts by (simp add: collect_errors_append)
  have mem: "ts ! k \<in> set xs"
    using assms(4) by (simp add: xs_def take_Suc_conv_app_nth)
  have "set (concat (map idents xs)) \<inter> set (concat (map idents ys)) = {}"
    using assms(3) unfolding ts by simp
  moreover have "ident_of (ts ! k) \<in> set (concat (map idents xs))"
    using mem ident_of_in_idents [of "ts ! k"] by auto
  ultimately have notin: "ident_of (ts ! k) \<notin> set (concat (map idents ys))" by blast
  have neq: "ident_of (ts ! k) \<noteq> this"
    using assms(2) mem ident_of_in_idents [of "ts ! k"] unfolding ts by auto
  have "s' (ident_of (ts ! k)) = s1 (ident_of (ts ! k))"
    using collect_errors_frame [OF c2 neq notin] .
  then show ?thesis using c1 by (simp add: xs_def)
qed

lemma collect_errors_blocks_tree:
  assumes "collect_errors this ts s = (Returned, s')"
    and "this \<notin> set (concat (map idents ts))"
    and "distinct (concat (map idents ts))"
  shows "log (s' this) =
           log (s this) @
           concat (map (\<lambda>t. map (\<lambda>m. if m = [] then qualifying_name (s this)
                                       else qualifying_name (s this) @ ''::'' @ m)
                                (log (s' (ident_of t)))) ts)"
proof -
  define q where "q = (\<lambda>m. if m = [] then qualifying_name (s this)
                            else qualifying_name (s this) @ ''::'' @ m)"
  have blocks: "log (s' this) =
      log (s this) @
      concat (map (\<lambda>k. map q (log (snd (collect_errors this (take (Suc k) ts) s)
                                       (ident_of (ts ! k)))))
                  [0..<length ts])"
    using collect_errors_blocks [OF assms(1,2)] by (simp add: q_def)
  have "map (\<lambda>k. map q (log (snd (collect_errors this (take (Suc k) ts) s) (ident_of (ts ! k)))))
          [0..<length ts]
        = map (\<lambda>k. map q (log (s' (ident_of (ts ! k))))) [0..<length ts]"
    by (rule map_cong) (simp_all add: collect_errors_child_final [OF assms])
  also have "\<dots> = map (\<lambda>t. map q (log (s' (ident_of t)))) ts"
    by (rule nth_equalityI) simp_all
  finally show ?thesis
    using blocks by (simp add: q_def)
qed

subsection \<open>The order of the runs\<close>

text \<open>
  The loop returns exactly when each child's run, made in the store the earlier children
  left, returns; the store it then leaves is the one the steps leave.
\<close>

lemma store_before_append:
  "k \<le> length ts \<Longrightarrow> store_before this (ts @ us) s k = store_before this ts s k"
  by (simp add: store_before_def)

lemma store_before_length:
  "store_before this ts s (length ts) = foldl (run_and_incorporate this) s ts"
  by (simp add: store_before_def)

lemma store_before_Suc:
  "k < length ts \<Longrightarrow>
   store_before this ts s (Suc k) = run_and_incorporate this (store_before this ts s k) (ts ! k)"
  by (simp add: store_before_def take_Suc_conv_app_nth)

lemma collect_errors_returns_iff:
  "collect_errors this ts s = (Returned, s') \<longleftrightarrow>
     (\<forall>k<length ts. fst (run_test (ts ! k) (store_before this ts s k)) = Returned)
     \<and> s' = foldl (run_and_incorporate this) s ts"
proof (induction ts arbitrary: s' rule: rev_induct)
  case Nil
  then show ?case by auto
next
  case (snoc t ts)
  define s1 where "s1 = foldl (run_and_incorporate this) s ts"
  have before_last: "store_before this (ts @ [t]) s (length ts) = s1"
    by (simp add: store_before_def s1_def)
  have before_old: "\<And>k. k < length ts \<Longrightarrow>
      store_before this (ts @ [t]) s k = store_before this ts s k"
    by (simp add: store_before_append)
  have all_split: "(\<forall>k<length (ts @ [t]). fst (run_test ((ts @ [t]) ! k)
                       (store_before this (ts @ [t]) s k)) = Returned)
     \<longleftrightarrow> (\<forall>k<length ts. fst (run_test (ts ! k) (store_before this ts s k)) = Returned)
        \<and> fst (run_test t s1) = Returned"
    using before_last before_old by (auto simp add: nth_append less_Suc_eq)
  have fold: "foldl (run_and_incorporate this) s (ts @ [t]) =
      (snd (run_test t s1))(this := incorporate (snd (run_test t s1) this)
                                      (snd (run_test t s1) (ident_of t)))"
    by (simp add: s1_def run_and_incorporate_def Let_def)
  show ?case
  proof
    assume run: "collect_errors this (ts @ [t]) s = (Returned, s')"
    obtain u1 u2 where c1: "collect_errors this ts s = (Returned, u1)"
      and c2: "run_test t u1 = (Returned, u2)"
      and s': "s' = u2(this := incorporate (u2 this) (u2 (ident_of t)))"
      using collect_errors_snoc_Returned [OF run] by blast
    have ih: "(\<forall>k<length ts. fst (run_test (ts ! k) (store_before this ts s k)) = Returned)
        \<and> u1 = s1"
      using snoc.IH [of u1] c1 by (simp add: s1_def)
    then have "fst (run_test t s1) = Returned" and "snd (run_test t s1) = u2"
      using c2 by simp_all
    then show "(\<forall>k<length (ts @ [t]). fst (run_test ((ts @ [t]) ! k)
                       (store_before this (ts @ [t]) s k)) = Returned)
        \<and> s' = foldl (run_and_incorporate this) s (ts @ [t])"
      using ih all_split fold s' by simp
  next
    assume a: "(\<forall>k<length (ts @ [t]). fst (run_test ((ts @ [t]) ! k)
                       (store_before this (ts @ [t]) s k)) = Returned)
        \<and> s' = foldl (run_and_incorporate this) s (ts @ [t])"
    then have old: "\<forall>k<length ts. fst (run_test (ts ! k) (store_before this ts s k)) = Returned"
      and last: "fst (run_test t s1) = Returned"
      using all_split by blast+
    have c1: "collect_errors this ts s = (Returned, s1)"
      using snoc.IH [of s1] old by (simp add: s1_def)
    obtain r2 u2 where c2: "run_test t s1 = (r2, u2)" by (cases "run_test t s1")
    have r2: "r2 = Returned" using last c2 by simp
    have "collect_errors this (ts @ [t]) s =
        (Returned, u2(this := incorporate (u2 this) (u2 (ident_of t))))"
      using c1 c2 r2 by (simp add: collect_errors_append)
    moreover have "foldl (run_and_incorporate this) s (ts @ [t]) =
        u2(this := incorporate (u2 this) (u2 (ident_of t)))"
      using fold c2 by simp
    ultimately have "collect_errors this (ts @ [t]) s =
        (Returned, foldl (run_and_incorporate this) s (ts @ [t]))"
      by simp
    then show "collect_errors this (ts @ [t]) s = (Returned, s')"
      using a by simp
  qed
qed

lemma collect_errors_take:
  assumes "collect_errors this ts s = (Returned, s')"
  shows "collect_errors this (take k ts) s = (Returned, store_before this ts s k)"
proof -
  obtain r1 s1 where c1: "collect_errors this (take k ts) s = (r1, s1)"
    by (cases "collect_errors this (take k ts) s")
  have split: "collect_errors this ts s =
      (case collect_errors this (take k ts) s of
         (Returned, s') \<Rightarrow> collect_errors this (drop k ts) s'
       | (Threw e, s') \<Rightarrow> (Threw e, s'))"
    using collect_errors_append [of this "take k ts" "drop k ts" s] by simp
  have r1: "r1 = Returned"
    using assms c1 split by (cases r1) simp_all
  then have "s1 = foldl (run_and_incorporate this) s (take k ts)"
    using c1 collect_errors_returns_iff [of this "take k ts" s s1] by simp
  then show ?thesis using c1 r1 by (simp add: store_before_def)
qed

lemma child_log_at_its_turn:
  assumes "collect_errors this ts s = (Returned, s')"
    and "this \<notin> set (concat (map idents ts))"
    and "k < length ts"
  shows "snd (collect_errors this (take (Suc k) ts) s) (ident_of (ts ! k)) =
         snd (run_test (ts ! k) (store_before this ts s k)) (ident_of (ts ! k))"
proof -
  have "ts ! k \<in> set ts" using assms(3) by simp
  then have neq: "ident_of (ts ! k) \<noteq> this"
    using assms(2) ident_of_in_idents [of "ts ! k"] by auto
  have "snd (collect_errors this (take (Suc k) ts) s) = store_before this ts s (Suc k)"
    using collect_errors_take [OF assms(1), of "Suc k"] by simp
  also have "\<dots> = run_and_incorporate this (store_before this ts s k) (ts ! k)"
    using assms(3) by (rule store_before_Suc)
  finally show ?thesis
    using neq by (simp add: run_and_incorporate_def Let_def del: run_test.simps)
qed

text \<open>
  C3. A group's run returns exactly when the run of each child, executed in declared
  order in the store that running and incorporating the earlier children left, returns.
  The store it leaves is then the result of running and incorporating the children one
  after the other in declared order. The group's log is its old log followed by one
  block per child, in declaration order; block \<open>k\<close> holds the messages of child \<open>k\<close>'s
  log right after child \<open>k\<close>'s run, each qualified with the group's name. When no object
  is reached twice, block \<open>k\<close> is the qualified log that child \<open>k\<close> has at the end of the
  run. (For the log, the group is not among its own descendants: its components existed
  before it was constructed.)
\<close>

theorem group_log_is_blocks_in_declared_order:
  "(fst (run_test (compound_test this ts) s) = Returned \<longleftrightarrow>
      (\<forall>k<length ts. fst (run_test (ts ! k) (store_before this ts s k)) = Returned))
   \<and> (run_test (compound_test this ts) s = (Returned, s') \<longrightarrow>
        s' = foldl (run_and_incorporate this) s ts)
   \<and> (run_test (compound_test this ts) s = (Returned, s')
        \<and> this \<notin> set (concat (map idents ts)) \<longrightarrow>
        log (s' this) =
          log (s this) @
          concat (map (\<lambda>k. map (\<lambda>m. if m = [] then qualifying_name (s this)
                                      else qualifying_name (s this) @ ''::'' @ m)
                               (log (snd (run_test (ts ! k) (store_before this ts s k))
                                      (ident_of (ts ! k)))))
                      [0..<length ts])
        \<and> (distinct (concat (map idents ts)) \<longrightarrow>
             log (s' this) =
               log (s this) @
               concat (map (\<lambda>t. map (\<lambda>m. if m = [] then qualifying_name (s this)
                                           else qualifying_name (s this) @ ''::'' @ m)
                                    (log (s' (ident_of t)))) ts)))"
proof (intro conjI impI)
  show "fst (run_test (compound_test this ts) s) = Returned \<longleftrightarrow>
      (\<forall>k<length ts. fst (run_test (ts ! k) (store_before this ts s k)) = Returned)"
  proof
    assume "fst (run_test (compound_test this ts) s) = Returned"
    then have "collect_errors this ts s = (Returned, snd (collect_errors this ts s))"
      by (cases "collect_errors this ts s") simp
    then show "\<forall>k<length ts. fst (run_test (ts ! k) (store_before this ts s k)) = Returned"
      using collect_errors_returns_iff [of this ts s "snd (collect_errors this ts s)"] by blast
  next
    assume "\<forall>k<length ts. fst (run_test (ts ! k) (store_before this ts s k)) = Returned"
    then have "collect_errors this ts s = (Returned, foldl (run_and_incorporate this) s ts)"
      using collect_errors_returns_iff [of this ts s "foldl (run_and_incorporate this) s ts"]
      by blast
    then show "fst (run_test (compound_test this ts) s) = Returned" by simp
  qed
next
  assume "run_test (compound_test this ts) s = (Returned, s')"
  then have "collect_errors this ts s = (Returned, s')" by simp
  then show "s' = foldl (run_and_incorporate this) s ts"
    using collect_errors_returns_iff [of this ts s s'] by blast
next
  assume a: "run_test (compound_test this ts) s = (Returned, s')
        \<and> this \<notin> set (concat (map idents ts))"
  then have ce: "collect_errors this ts s = (Returned, s')"
    and ng: "this \<notin> set (concat (map idents ts))" by simp_all
  define q where "q = (\<lambda>m. if m = [] then qualifying_name (s this)
                            else qualifying_name (s this) @ ''::'' @ m)"
  have eq: "map (\<lambda>k. map q (log (snd (collect_errors this (take (Suc k) ts) s) (ident_of (ts ! k)))))
          [0..<length ts]
        = map (\<lambda>k. map q (log (snd (run_test (ts ! k) (store_before this ts s k))
                                   (ident_of (ts ! k))))) [0..<length ts]"
    by (rule map_cong) (simp_all add: child_log_at_its_turn [OF ce ng] del: run_test.simps)
  have "log (s' this) =
      log (s this) @
      concat (map (\<lambda>k. map q (log (snd (collect_errors this (take (Suc k) ts) s)
                                       (ident_of (ts ! k)))))
                  [0..<length ts])"
    using collect_errors_blocks [OF ce ng] by (simp add: q_def)
  then have "log (s' this) =
      log (s this) @
      concat (map (\<lambda>k. map q (log (snd (run_test (ts ! k) (store_before this ts s k))
                                   (ident_of (ts ! k))))) [0..<length ts])"
    by (simp only: eq)
  then show "log (s' this) =
          log (s this) @
          concat (map (\<lambda>k. map (\<lambda>m. if m = [] then qualifying_name (s this)
                                      else qualifying_name (s this) @ ''::'' @ m)
                               (log (snd (run_test (ts ! k) (store_before this ts s k))
                                      (ident_of (ts ! k)))))
                      [0..<length ts])"
    by (simp only: q_def)
next
  assume a: "run_test (compound_test this ts) s = (Returned, s')
        \<and> this \<notin> set (concat (map idents ts))"
    and dist: "distinct (concat (map idents ts))"
  then have ce: "collect_errors this ts s = (Returned, s')"
    and ng: "this \<notin> set (concat (map idents ts))" by simp_all
  show "log (s' this) =
               log (s this) @
               concat (map (\<lambda>t. map (\<lambda>m. if m = [] then qualifying_name (s this)
                                           else qualifying_name (s this) @ ''::'' @ m)
                                    (log (s' (ident_of t)))) ts)"
    using collect_errors_blocks_tree [OF ce ng dist] .
qed

lemmas order_defs = store_before_def run_and_incorporate_def Let_def

theorem group_log_is_blocks_in_declared_order_witness:
  "fst (run_test hierarchy hierarchy_store) = Returned
   \<and> fst (run_test (simple_test 1 fail_always) hierarchy_store) = Returned
   \<and> log (snd (run_test (simple_test 1 fail_always) hierarchy_store) 1) = [''A'']
   \<and> log (run_and_incorporate 0 hierarchy_store (simple_test 1 fail_always) 0) = [''compound::A'']
   \<and> fst (run_test (compound_test 2 [simple_test 3 fail_always, simple_test 4 fail_always])
        (run_and_incorporate 0 hierarchy_store (simple_test 1 fail_always))) = Returned
   \<and> log (snd (run_test (compound_test 2 [simple_test 3 fail_always, simple_test 4 fail_always])
        (run_and_incorporate 0 hierarchy_store (simple_test 1 fail_always))) 2)
        = [''sub::B'', ''sub::C'']
   \<and> 0 \<notin> set (concat (map idents
         [simple_test 1 fail_always,
          compound_test 2 [simple_test 3 fail_always, simple_test 4 fail_always]]))
   \<and> distinct (concat (map idents
         [simple_test 1 fail_always,
          compound_test 2 [simple_test 3 fail_always, simple_test 4 fail_always]]))
   \<and> log (snd (run_test hierarchy hierarchy_store) 1) = [''A'']
   \<and> log (snd (run_test hierarchy hierarchy_store) 2) = [''sub::B'', ''sub::C'']
   \<and> log (snd (run_test hierarchy hierarchy_store) 0) =
       [''compound::A'', ''compound::sub::B'', ''compound::sub::C'']"
  using group_log_is_blocks_in_declared_order
    [of 0 "[simple_test 1 fail_always,
          compound_test 2 [simple_test 3 fail_always, simple_test 4 fail_always]]"
      hierarchy_store "snd (run_test hierarchy hierarchy_store)"]
  by (simp add: example_defs order_defs)

subsection \<open>Error counts\<close>

text \<open>
  In a tree, a run of a group adds to the group's count the count each subtest has when
  the run is over.
\<close>

lemma collect_errors_count:
  assumes "collect_errors this ts s = (Returned, s')"
    and "this \<notin> set (concat (map idents ts))"
    and "distinct (concat (map idents ts))"
  shows "size_log (s' this) =
           size_log (s this) + sum_list (map (\<lambda>t. size_log (s' (ident_of t))) ts)"
  using assms
proof (induction ts arbitrary: s)
  case Nil
  then show ?case by simp
next
  case (Cons t ts)
  obtain r1 s1 where run: "run_test t s = (r1, s1)" by (cases "run_test t s")
  have r1: "r1 = Returned"
    using Cons.prems(1) run by (cases r1) simp_all
  define s2 where "s2 = s1(this := incorporate (s1 this) (s1 (ident_of t)))"
  have ce: "collect_errors this ts s2 = (Returned, s')"
    using Cons.prems(1) run r1 by (simp add: s2_def)
  have this_t: "this \<notin> set (idents t)" and this_ts: "this \<notin> set (concat (map idents ts))"
    using Cons.prems(2) by auto
  have dist_ts: "distinct (concat (map idents ts))"
    and disj: "set (idents t) \<inter> set (concat (map idents ts)) = {}"
    using Cons.prems(3) by auto
  have neq: "ident_of t \<noteq> this" and notin: "ident_of t \<notin> set (concat (map idents ts))"
    using this_t disj ident_of_in_idents [of t] by auto
  have s1this: "s1 this = s this"
    using run_test_frame [OF run this_t] .
  have size2: "size_log (s2 this) = size_log (s this) + size_log (s1 (ident_of t))"
    by (simp add: s2_def size_log_incorporate s1this)
  have "s' (ident_of t) = s2 (ident_of t)"
    using collect_errors_frame [OF ce neq notin] .
  then have child: "s' (ident_of t) = s1 (ident_of t)"
    using neq by (simp add: s2_def)
  have "size_log (s' this) =
          size_log (s2 this) + sum_list (map (\<lambda>t. size_log (s' (ident_of t))) ts)"
    using Cons.IH [OF ce this_ts dist_ts] .
  then show ?case using size2 child by simp
qed

lemma fresh_append: "fresh s (xs @ ys) \<longleftrightarrow> fresh s xs \<and> fresh s ys"
  by (simp add: fresh_def)

lemma fresh_cong: "(\<And>i. i \<in> set is \<Longrightarrow> s' i = s i) \<Longrightarrow> fresh s' is = fresh s is"
  by (simp add: fresh_def list_all_iff)

lemma sum_sizes_cong:
  "(\<And>i. i \<in> set is \<Longrightarrow> s' i = s i)
   \<Longrightarrow> sum_list (map (\<lambda>i. size_log (s' i)) is) = sum_list (map (\<lambda>i. size_log (s i)) is)"
  by (induction "is") simp_all

lemma collect_errors_leaf_sum_aux:
  assumes "\<forall>t\<in>set ts. \<forall>s s'. distinct (idents t) \<longrightarrow> fresh s (idents t)
              \<longrightarrow> run_test t s = (Returned, s')
              \<longrightarrow> size_log (s' (ident_of t)) = sum_list (map (\<lambda>i. size_log (s' i)) (leaves t))"
    and "collect_errors this ts s = (Returned, s')"
    and "this \<notin> set (concat (map idents ts))"
    and "distinct (concat (map idents ts))"
    and "fresh s (concat (map idents ts))"
  shows "size_log (s' this) =
           size_log (s this) + sum_list (map (\<lambda>i. size_log (s' i)) (concat (map leaves ts)))"
  using assms
proof (induction ts arbitrary: s)
  case Nil
  then show ?case by simp
next
  case (Cons t ts)
  obtain r1 s1 where run: "run_test t s = (r1, s1)" by (cases "run_test t s")
  have r1: "r1 = Returned"
    using Cons.prems(2) run by (cases r1) simp_all
  define s2 where "s2 = s1(this := incorporate (s1 this) (s1 (ident_of t)))"
  have ce: "collect_errors this ts s2 = (Returned, s')"
    using Cons.prems(2) run r1 by (simp add: s2_def)
  have this_t: "this \<notin> set (idents t)" and this_ts: "this \<notin> set (concat (map idents ts))"
    using Cons.prems(3) by auto
  have dist_t: "distinct (idents t)" and dist_ts: "distinct (concat (map idents ts))"
    and disj: "set (idents t) \<inter> set (concat (map idents ts)) = {}"
    using Cons.prems(4) by auto
  have fresh_t: "fresh s (idents t)" and fresh_ts: "fresh s (concat (map idents ts))"
    using Cons.prems(5) by (simp_all add: fresh_append)
  have leaf_t: "size_log (s1 (ident_of t)) = sum_list (map (\<lambda>i. size_log (s1 i)) (leaves t))"
    using Cons.prems(1) dist_t fresh_t run r1 by simp
  have s1this: "s1 this = s this"
    using run_test_frame [OF run this_t] .
  have size2: "size_log (s2 this) = size_log (s this) + size_log (s1 (ident_of t))"
    by (simp add: s2_def size_log_incorporate s1this)
  have "\<And>i. i \<in> set (concat (map idents ts)) \<Longrightarrow> s2 i = s i"
  proof -
    fix i assume i: "i \<in> set (concat (map idents ts))"
    then have "i \<noteq> this" and "i \<notin> set (idents t)" using this_ts disj by auto
    then show "s2 i = s i" using run_test_frame [OF run] by (simp add: s2_def)
  qed
  then have fresh2: "fresh s2 (concat (map idents ts))"
    using fresh_ts fresh_cong [of "concat (map idents ts)" s2 s] by simp
  have IH': "\<forall>t\<in>set ts. \<forall>s s'. distinct (idents t) \<longrightarrow> fresh s (idents t)
              \<longrightarrow> run_test t s = (Returned, s')
              \<longrightarrow> size_log (s' (ident_of t)) = sum_list (map (\<lambda>i. size_log (s' i)) (leaves t))"
    using Cons.prems(1) by simp
  have rest: "size_log (s' this) =
           size_log (s2 this) + sum_list (map (\<lambda>i. size_log (s' i)) (concat (map leaves ts)))"
    using Cons.IH [OF IH' ce this_ts dist_ts fresh2] .
  have "\<And>i. i \<in> set (leaves t) \<Longrightarrow> s' i = s1 i"
  proof -
    fix i assume "i \<in> set (leaves t)"
    then have i: "i \<in> set (idents t)" using leaves_subset_idents by blast
    then have ni: "i \<noteq> this" and nts: "i \<notin> set (concat (map idents ts))"
      using this_t disj by auto
    have "s' i = s2 i" using collect_errors_frame [OF ce ni nts] .
    then show "s' i = s1 i" using ni by (simp add: s2_def)
  qed
  then have "sum_list (map (\<lambda>i. size_log (s' i)) (leaves t))
             = sum_list (map (\<lambda>i. size_log (s1 i)) (leaves t))"
    by (rule sum_sizes_cong)
  then show ?case using rest size2 leaf_t by simp
qed

lemma run_test_leaf_sum:
  "distinct (idents t) \<Longrightarrow> fresh s (idents t) \<Longrightarrow> run_test t s = (Returned, s')
   \<Longrightarrow> size_log (s' (ident_of t)) = sum_list (map (\<lambda>i. size_log (s' i)) (leaves t))"
proof (induction t arbitrary: s s')
  case (simple_test i f)
  then show ?case by simp
next
  case (compound_test i ts)
  have ce: "collect_errors i ts s = (Returned, s')"
    using compound_test.prems(3) by simp
  have ni: "i \<notin> set (concat (map idents ts))" and dist: "distinct (concat (map idents ts))"
    using compound_test.prems(1) by auto
  have fr: "fresh s (concat (map idents ts))" and fi: "log (s i) = []"
    using compound_test.prems(2) by (simp_all add: fresh_def)
  have H: "\<forall>t\<in>set ts. \<forall>s s'. distinct (idents t) \<longrightarrow> fresh s (idents t)
              \<longrightarrow> run_test t s = (Returned, s')
              \<longrightarrow> size_log (s' (ident_of t)) = sum_list (map (\<lambda>i. size_log (s' i)) (leaves t))"
    using compound_test.IH by blast
  show ?case
    using collect_errors_leaf_sum_aux [OF H ce ni dist fr] fi by (simp add: size_log_def)
qed

text \<open>
  C5. \<open>error_count()\<close> of a node is the number of messages in the node's own log, in
  every store. For a group that is a tree with all logs still empty, a run that returns
  leaves the group's \<open>error_count()\<close> equal to the sum of the counts of the simple tests
  below it.
\<close>

theorem error_count_is_log_size_and_leaf_sum:
  "error_count t s = length (log (s (ident_of t)))
   \<and> (distinct (idents (compound_test g ts)) \<longrightarrow> fresh s (idents (compound_test g ts))
        \<longrightarrow> run_test (compound_test g ts) s = (Returned, s')
        \<longrightarrow> error_count (compound_test g ts) s'
              = sum_list (map (\<lambda>i. length (log (s' i))) (leaves (compound_test g ts))))"
  using run_test_leaf_sum [of "compound_test g ts" s s']
  by (simp add: error_count_def size_log_def)

theorem error_count_is_log_size_and_leaf_sum_witness:
  "distinct (idents hierarchy) \<and> fresh hierarchy_store (idents hierarchy)
   \<and> fst (run_test hierarchy hierarchy_store) = Returned
   \<and> leaves hierarchy = [1, 3, 4]
   \<and> error_count hierarchy (snd (run_test hierarchy hierarchy_store)) = 3
   \<and> sum_list (map (\<lambda>i. length (log (snd (run_test hierarchy hierarchy_store) i)))
         (leaves hierarchy)) = 3"
  using error_count_is_log_size_and_leaf_sum
    [of hierarchy hierarchy_store 0
      "[simple_test 1 fail_always,
        compound_test 2 [simple_test 3 fail_always, simple_test 4 fail_always]]"
      "snd (run_test hierarchy hierarchy_store)"]
  by (simp add: example_defs)

subsection \<open>Faults\<close>

text \<open>
  C8. Nothing catches what a test procedure throws. A simple test whose procedure throws
  ends its run with that fault, its log being what the procedure left. A group one of
  whose subtests ends with a fault, the subtests before it having returned, ends its own
  run with the same fault and with the very store the subtest left: the subtest is not
  incorporated, the later subtests are not run, and no message is recorded for the fault.
  Applied level by level, this carries the fault through every ancestor.
\<close>

theorem fault_propagates_uncaught:
  "(fst (f (s i)) = Threw e \<longrightarrow>
      run_test (simple_test i f) s = (Threw e, s(i := snd (f (s i)))))
   \<and> (collect_errors g before s0 = (Returned, s) \<and> run_test t s = (Threw e, s') \<longrightarrow>
      run_test (compound_test g (before @ t # after)) s0 = (Threw e, s'))"
  by (simp add: case_prod_beta collect_errors_append)

theorem fault_propagates_uncaught_witness:
  "fst (throw_after_append (snd (collect_errors 0 [simple_test 1 fail_always] hierarchy_store) 3))
     = Threw (Fault ''boom'')
   \<and> fst (run_test faulty_hierarchy hierarchy_store) = Threw (Fault ''boom'')
   \<and> log (snd (run_test faulty_hierarchy hierarchy_store) 0) = [''compound::A'']
   \<and> log (snd (run_test faulty_hierarchy hierarchy_store) 2) = []
   \<and> log (snd (run_test faulty_hierarchy hierarchy_store) 3) = [''B::partial'']
   \<and> log (snd (run_test faulty_hierarchy hierarchy_store) 4) = []"
  using fault_propagates_uncaught
    [of throw_after_append "snd (collect_errors 0 [simple_test 1 fail_always] hierarchy_store)"
      3 "Fault ''boom''" 0 "[simple_test 1 fail_always]" hierarchy_store
      "compound_test 2 [simple_test 3 throw_after_append, simple_test 4 fail_always]"
      "snd (run_test (compound_test 2 [simple_test 3 throw_after_append, simple_test 4 fail_always])
         (snd (collect_errors 0 [simple_test 1 fail_always] hierarchy_store)))"
      "[]"]
  by (simp add: example_defs)

subsection \<open>Shared subtests\<close>




subsection \<open>Running twice\<close>

text \<open>
  C4, as stated, fails for groups. \<open>compound\<close> with the one leaf \<open>A\<close>, which appends one
  message per run, counts 1 error after its first run and 3 after its second: the second
  run incorporates the whole log of \<open>A\<close>, which by then holds two messages.
\<close>

theorem group_second_run_counterexample:
  "fst (run_test single_group hierarchy_store) = Returned
   \<and> error_count single_group (snd (run_test single_group hierarchy_store)) = 1
   \<and> fst (run_test single_group (snd (run_test single_group hierarchy_store))) = Returned
   \<and> error_count single_group
        (snd (run_test single_group (snd (run_test single_group hierarchy_store)))) = 3
   \<and> error_count single_group
        (snd (run_test single_group (snd (run_test single_group hierarchy_store))))
      \<noteq> 2 * error_count single_group (snd (run_test single_group hierarchy_store))"
  by (simp add: example_defs)

text \<open>
  Nor does every simple test double: a procedure may look at the log it is handed.
\<close>

lemma state_dependent_leaf_not_doubled:
  "error_count (simple_test 1 fail_first_only)
     (snd (run_test (simple_test 1 fail_first_only) hierarchy_store)) = 1
   \<and> error_count (simple_test 1 fail_first_only)
     (snd (run_test (simple_test 1 fail_first_only)
        (snd (run_test (simple_test 1 fail_first_only) hierarchy_store)))) = 1"
  by (simp add: example_defs fail_first_only_def)

text \<open>
  C4, amended. For a simple test whose procedure returns and appends the same number
  \<open>k\<close> of messages to whatever log it is handed, a second run appends a second batch of
  \<open>k\<close> messages after the first, and starting from an empty log the count after two runs
  is twice the count after one. For a group that is a tree, a second run that returns
  also appends after what the first run left, but it appends the whole log of every
  subtest: the count after the second run is the count after the first plus the sum of
  the subtests' counts after the second run.
\<close>

theorem second_run_appends_again:
  "((\<forall>l. fst (f l) = Returned \<and> (\<exists>ms. length ms = k \<and> log (snd (f l)) = log l @ ms))
      \<and> run_test (simple_test i f) s = (r1, s1)
      \<and> run_test (simple_test i f) s1 = (r2, s2)
     \<longrightarrow> r1 = Returned \<and> r2 = Returned
        \<and> error_count (simple_test i f) s1 = error_count (simple_test i f) s + k
        \<and> error_count (simple_test i f) s2 = error_count (simple_test i f) s1 + k
        \<and> take (error_count (simple_test i f) s1) (log (s2 i)) = log (s1 i)
        \<and> (log (s i) = []
             \<longrightarrow> error_count (simple_test i f) s2 = 2 * error_count (simple_test i f) s1))
   \<and> (distinct (idents (compound_test g ts))
      \<and> run_test (compound_test g ts) u = (Returned, u1)
      \<and> run_test (compound_test g ts) u1 = (Returned, u2)
     \<longrightarrow> take (error_count (compound_test g ts) u1) (log (u2 g)) = log (u1 g)
        \<and> error_count (compound_test g ts) u2 =
            error_count (compound_test g ts) u1
            + sum_list (map (\<lambda>t. error_count t u2) ts))"
proof (intro conjI impI)
  assume a: "(\<forall>l. fst (f l) = Returned \<and> (\<exists>ms. length ms = k \<and> log (snd (f l)) = log l @ ms))
      \<and> run_test (simple_test i f) s = (r1, s1)
      \<and> run_test (simple_test i f) s1 = (r2, s2)"
  then have ret: "\<And>l. fst (f l) = Returned" by blast
  obtain ms1 where ms1: "length ms1 = k" "log (snd (f (s i))) = log (s i) @ ms1"
    using a by blast
  have run1: "r1 = Returned" "s1 = s(i := snd (f (s i)))"
    using a ret by (simp_all add: case_prod_beta)
  obtain ms2 where ms2: "length ms2 = k" "log (snd (f (s1 i))) = log (s1 i) @ ms2"
    using a by blast
  have run2: "r2 = Returned" "s2 = s1(i := snd (f (s1 i)))"
    using a ret by (simp_all add: case_prod_beta)
  have l1: "log (s1 i) = log (s i) @ ms1" using run1 ms1 by simp
  have l2: "log (s2 i) = log (s1 i) @ ms2" using run2 ms2 by simp
  show "r1 = Returned" by (rule run1)
  show "r2 = Returned" by (rule run2)
  show c1: "error_count (simple_test i f) s1 = error_count (simple_test i f) s + k"
    using l1 ms1 by (simp add: error_count_def size_log_def)
  show c2: "error_count (simple_test i f) s2 = error_count (simple_test i f) s1 + k"
    using l2 ms2 by (simp add: error_count_def size_log_def)
  show "take (error_count (simple_test i f) s1) (log (s2 i)) = log (s1 i)"
    using l2 by (simp add: error_count_def size_log_def)
  assume "log (s i) = []"
  then show "error_count (simple_test i f) s2 = 2 * error_count (simple_test i f) s1"
    using c1 c2 by (simp add: error_count_def size_log_def)
next
  assume b: "distinct (idents (compound_test g ts))
      \<and> run_test (compound_test g ts) u = (Returned, u1)
      \<and> run_test (compound_test g ts) u1 = (Returned, u2)"
  then have ce2: "collect_errors g ts u1 = (Returned, u2)" by simp
  have ng: "g \<notin> set (concat (map idents ts))" and dist: "distinct (concat (map idents ts))"
    using b by auto
  show "take (error_count (compound_test g ts) u1) (log (u2 g)) = log (u1 g)"
    using collect_errors_extends [OF ce2 ng] by (simp add: error_count_def size_log_def)
  have "(\<lambda>t. error_count t u2) = (\<lambda>t. size_log (u2 (ident_of t)))"
    by (simp add: error_count_def)
  then show "error_count (compound_test g ts) u2 =
            error_count (compound_test g ts) u1
            + sum_list (map (\<lambda>t. error_count t u2) ts)"
    using collect_errors_count [OF ce2 ng dist] by (simp add: error_count_def)
qed

theorem second_run_appends_again_witness:
  "error_count (simple_test 1 fail_always)
     (snd (run_test (simple_test 1 fail_always) hierarchy_store)) = 1
   \<and> error_count (simple_test 1 fail_always)
     (snd (run_test (simple_test 1 fail_always)
        (snd (run_test (simple_test 1 fail_always) hierarchy_store)))) = 2
   \<and> distinct (idents single_group)
   \<and> log (snd (run_test single_group hierarchy_store) 0) = [''compound::A'']
   \<and> log (snd (run_test single_group (snd (run_test single_group hierarchy_store))) 0)
       = [''compound::A'', ''compound::A'', ''compound::A'']
   \<and> sum_list (map (\<lambda>t. error_count t
         (snd (run_test single_group (snd (run_test single_group hierarchy_store)))))
         [simple_test 1 fail_always]) = 2"
  using second_run_appends_again
    [of fail_always 1 1 hierarchy_store Returned
      "snd (run_test (simple_test 1 fail_always) hierarchy_store)"
      Returned
      "snd (run_test (simple_test 1 fail_always)
        (snd (run_test (simple_test 1 fail_always) hierarchy_store)))"
      0 "[simple_test 1 fail_always]" hierarchy_store
      "snd (run_test single_group hierarchy_store)"
      "snd (run_test single_group (snd (run_test single_group hierarchy_store)))"]
  by (simp add: example_defs)

section \<open>The tests of framework_test.cpp\<close>

text \<open>
  \<open>logging_test\<close> expects the report of its log to be the three lines \<open>test::1\<close>,
  \<open>test::3\<close> and \<open>test\<close>.
\<close>

lemma logging_test_report:
  "report (foldl apply_op (new_error_log ''test'') logging_ops) [] =
     ''test::1'' @ [CHR 0x0A] @ ''test::3'' @ [CHR 0x0A] @ ''test'' @ [CHR 0x0A]"
  by (simp add: example_defs report_def)

text \<open>
  \<open>hierarchy_test\<close> expects three errors on \<open>compound\<close> and the messages \<open>compound::A\<close>,
  \<open>compound::sub::B\<close> and \<open>compound::sub::C\<close>.
\<close>

lemma hierarchy_test_result:
  "fst (run_test hierarchy hierarchy_store) = Returned
   \<and> error_count hierarchy (snd (run_test hierarchy hierarchy_store)) = 3
   \<and> report_test hierarchy (snd (run_test hierarchy hierarchy_store)) [] =
       ''compound::A'' @ [CHR 0x0A] @ ''compound::sub::B'' @ [CHR 0x0A]
       @ ''compound::sub::C'' @ [CHR 0x0A]"
  by (simp add: example_defs report_def report_test_def)

end
